theory Spec2Isabelle
  imports Main "HOL-Library.Word" "HOL-Library.Sublist" "HOL-Library.AList"
begin

section \<open>Jinja2CppLight: values, contexts and the control-section tree\<close>

text \<open>
  A shallow embedding of \<^verbatim>\<open>src/Jinja2CppLight.h\<close>. The header holds the value
  classes, the control-section classes and their \<^verbatim>\<open>render\<close> methods. The bodies of
  \<^verbatim>\<open>Template::doSubstitutions\<close>, \<^verbatim>\<open>IfSection::computeExpression\<close> and of the
  \<^verbatim>\<open>toString\<close> helper of \<^verbatim>\<open>stringhelper.h\<close> are not part of the header; they are
  modelled from the specification and marked as such.
\<close>

subsection \<open>Machine types\<close>

text \<open>
  C++ \<^verbatim>\<open>int\<close> is a 32-bit two's complement integer: \<open>sint\<close> reads it, \<open>+\<close> wraps.
  The comparison \<^verbatim>\<open>i < loopEnd\<close> of two \<^verbatim>\<open>int\<close>s is \<open>sint i < sint loopEnd\<close>.
\<close>

type_synonym int32 = "32 word"

text \<open>
  C++ \<^verbatim>\<open>float\<close> is an IEEE 754 binary32 value: a sign bit, 8 exponent bits and
  23 fraction bits. Exponent 255 with a nonzero fraction is a NaN; exponent 0 with
  fraction 0 is a zero (of either sign). The operator \<^verbatim>\<open>==\<close> is false as soon as an
  operand is a NaN, identifies the two zeros, and otherwise compares the values, which
  are equal exactly when the three fields are; \<^verbatim>\<open>!=\<close> is its negation. Promoting
  both operands to \<^verbatim>\<open>double\<close>, as \<^verbatim>\<open>value != 0.0\<close> does, is exact and changes
  none of this.
\<close>

datatype float = Float (sign: bool) (exponent: "8 word") (fraction: "23 word")

definition float_is_nan :: "float \<Rightarrow> bool" where
  "float_is_nan f = (exponent f = 255 \<and> fraction f \<noteq> 0)"

definition float_is_zero :: "float \<Rightarrow> bool" where
  "float_is_zero f = (exponent f = 0 \<and> fraction f = 0)"

definition float_eq :: "float \<Rightarrow> float \<Rightarrow> bool" where
  "float_eq a b =
     (\<not> float_is_nan a \<and> \<not> float_is_nan b \<and> (a = b \<or> (float_is_zero a \<and> float_is_zero b)))"

definition float_ne :: "float \<Rightarrow> float \<Rightarrow> bool" where
  "float_ne a b = (\<not> float_eq a b)"

text \<open>The literal \<^verbatim>\<open>0.0\<close>.\<close>

definition float_0_0 :: float where
  "float_0_0 = Float False 0 0"

subsection \<open>Values\<close>

text \<open>
  \<^verbatim>\<open>class Value\<close> with its three subclasses \<^verbatim>\<open>IntValue\<close>, \<^verbatim>\<open>FloatValue\<close> and
  \<^verbatim>\<open>StringValue\<close>, each holding one field \<^verbatim>\<open>value\<close>.
\<close>

datatype Value = IntValue int32 | FloatValue float | StringValue string

text \<open>\<^verbatim>\<open>isTrue()\<close>, lines 51-53, 64-66 and 77-79.\<close>

fun isTrue :: "Value \<Rightarrow> bool" where
  "isTrue (IntValue v) = (v \<noteq> 0)"
| "isTrue (FloatValue v) = float_ne v float_0_0"
| "isTrue (StringValue v) = (\<not> (v = []))"

text \<open>
  Modelled from the spec: \<^verbatim>\<open>toString\<close> of \<^verbatim>\<open>stringhelper.h\<close> at type \<^verbatim>\<open>int\<close> is missing
  from the sources. The spec says that an \<^verbatim>\<open>Int\<close> renders to its decimal form.
\<close>

fun decimal :: "nat \<Rightarrow> string" where
  "decimal n = (if n < 10 then [''0123456789'' ! n]
                else decimal (n div 10) @ [''0123456789'' ! (n mod 10)])"

definition toString_int :: "int32 \<Rightarrow> string" where
  "toString_int v =
     (if sint v < 0 then CHR ''-'' # decimal (nat (- sint v)) else decimal (nat (sint v)))"

text \<open>
  \<^verbatim>\<open>Value::render()\<close>, lines 48-50, 61-63 and 74-76. \<^verbatim>\<open>toString\<close> at type
  \<^verbatim>\<open>float\<close> is missing from the sources too, and the spec does not fix its digits
  (``decimal with fractional part''): it is the parameter \<open>toString_float\<close> of every
  function that renders a value.
\<close>

fun Value_render :: "(float \<Rightarrow> string) \<Rightarrow> Value \<Rightarrow> string" where
  "Value_render toString_float (IntValue v) = toString_int v"
| "Value_render toString_float (FloatValue v) = toString_float v"
| "Value_render toString_float (StringValue v) = v"

subsection \<open>Contexts and errors\<close>

text \<open>
  \<^verbatim>\<open>std::map< std::string, Value * > valueByName\<close>: keys are unique, every entry owns
  its value, no value is shared. \<^verbatim>\<open>find(k) != end()\<close> is \<open>ctx k \<noteq> None\<close>,
  \<^verbatim>\<open>valueByName[k] = new IntValue(i)\<close> is \<open>ctx(k \<mapsto> IntValue i)\<close>, and
  \<^verbatim>\<open>delete valueByName[k]; valueByName.erase(k)\<close> is \<open>ctx(k := None)\<close>.
\<close>

type_synonym ctx = "string \<rightharpoonup> Value"

text \<open>\<^verbatim>\<open>class render_error : public std::runtime_error\<close>, with its message.\<close>

datatype error = render_error string

subsection \<open>The substitution engine\<close>

text \<open>
  \<open>find_sub pat s\<close> is \<^verbatim>\<open>s.find(pat)\<close>: the index of the first occurrence of
  \<open>pat\<close> in \<open>s\<close>, \<open>None\<close> for \<^verbatim>\<open>npos\<close>.
\<close>

fun find_sub :: "string \<Rightarrow> string \<Rightarrow> nat option" where
  "find_sub pat [] = (if pat = [] then Some 0 else None)"
| "find_sub pat (c # cs) =
     (if prefix pat (c # cs) then Some 0 else map_option Suc (find_sub pat cs))"

definition is_space :: "char \<Rightarrow> bool" where
  "is_space c = (c \<in> set [CHR '' '', CHR 0x09, CHR 0x0A, CHR 0x0B, CHR 0x0C, CHR 0x0D])"

definition trim :: "string \<Rightarrow> string" where
  "trim s = rev (dropWhile is_space (rev (dropWhile is_space s)))"

text \<open>
  Modelled from the spec: the body of \<^verbatim>\<open>Template::doSubstitutions\<close> (declared at line
  107, called by \<^verbatim>\<open>Code::render\<close>) is missing from the sources. The spec, section 4.2:
  scan for \<^verbatim>\<open>{{\<close> ... \<^verbatim>\<open>}}\<close> delimiter pairs; for each, extract the enclosed
  identifier, trimmed of surrounding whitespace, look it up in the context and splice in
  its \<^verbatim>\<open>render()\<close> text; text outside the delimiters passes through unchanged; an
  unbound identifier, or a \<^verbatim>\<open>{{\<close> with no matching \<^verbatim>\<open>}}\<close>, is a
  \<^verbatim>\<open>render_error\<close>. The spec does not fix the messages of the two errors. The
  declaration takes the map by value, so the caller's context is never changed: the
  function returns the text or the error only.
\<close>

function doSubstitutions :: "(float \<Rightarrow> string) \<Rightarrow> string \<Rightarrow> ctx \<Rightarrow> error + string" where
  "doSubstitutions toString_float sourceCode valueByName =
     (case find_sub ''{{'' sourceCode of
        None \<Rightarrow> Inr sourceCode
      | Some p \<Rightarrow>
          (case find_sub ''}}'' (drop (p + 2) sourceCode) of
             None \<Rightarrow> Inl (render_error ''unterminated {{'')
           | Some q \<Rightarrow>
               (case valueByName (trim (take q (drop (p + 2) sourceCode))) of
                  None \<Rightarrow>
                    Inl (render_error
                      (''name '' @ trim (take q (drop (p + 2) sourceCode)) @ '' not defined''))
                | Some v \<Rightarrow>
                    (case doSubstitutions toString_float
                            (drop (q + 2) (drop (p + 2) sourceCode)) valueByName of
                       Inl e \<Rightarrow> Inl e
                     | Inr rest \<Rightarrow>
                         Inr (take p sourceCode @ Value_render toString_float v @ rest)))))"
  by pat_completeness auto

lemma find_sub_bound: "find_sub pat s = Some p \<Longrightarrow> p + length pat \<le> length s"
proof (induction s arbitrary: p)
  case Nil
  then show ?case by (simp split: if_splits)
next
  case (Cons c cs)
  show ?case
  proof (cases "prefix pat (c # cs)")
    case True
    with Cons.prems show ?thesis using prefix_length_le [OF True] by simp
  next
    case False
    with Cons.prems obtain p' where "find_sub pat cs = Some p'" and "p = Suc p'"
      by auto
    with Cons.IH show ?thesis by fastforce
  qed
qed

lemma doSubstitutions_rel_decreases:
  "doSubstitutions_rel y x \<Longrightarrow> (y, x) \<in> measure (\<lambda>(tsf, sourceCode, valueByName). length sourceCode)"
proof (erule doSubstitutions_rel.cases)
  fix tsf :: "float \<Rightarrow> string" and sourceCode :: string and valueByName :: ctx
    and p q :: nat and v :: Value
  assume y: "y = (tsf, drop (q + 2) (drop (p + 2) sourceCode), valueByName)"
    and x: "x = (tsf, sourceCode, valueByName)"
    and "find_sub ''{{'' sourceCode = Some p"
  then have "p + 2 \<le> length sourceCode"
    using find_sub_bound [of "''{{''" sourceCode p] by simp
  with x y show ?thesis by simp
qed

lemma doSubstitutions_dom_total: "doSubstitutions_dom x"
proof (induction x rule: wf_induct_rule
    [OF wf_measure [of "\<lambda>(tsf, sourceCode, valueByName). length sourceCode"]])
  case (1 x)
  show ?case
  proof (rule accpI)
    fix y
    assume "doSubstitutions_rel y x"
    then have "(y, x) \<in> measure (\<lambda>(tsf, sourceCode, valueByName). length sourceCode)"
      by (rule doSubstitutions_rel_decreases)
    then show "doSubstitutions_dom y" by (rule 1)
  qed
qed

termination doSubstitutions
  using doSubstitutions_dom_total by blast

text \<open>
  Modelled from the spec: the body of \<^verbatim>\<open>IfSection::computeExpression\<close> (declared at
  line 251) is missing from the sources. The spec, section 4.3: ``true'' means that the
  variable name exists as a key in the context and its \<^verbatim>\<open>isTrue()\<close> is true; if
  \<^verbatim>\<open>isNegation\<close>, the condition is inverted.
\<close>

definition computeExpression :: "bool \<Rightarrow> string \<Rightarrow> ctx \<Rightarrow> bool" where
  "computeExpression m_isNegation m_variableName valueByName =
     (let valueIsTrue = (case valueByName m_variableName of None \<Rightarrow> False | Some v \<Rightarrow> isTrue v)
      in if m_isNegation then \<not> valueIsTrue else valueIsTrue)"

subsection \<open>The control-section tree\<close>

text \<open>
  \<^verbatim>\<open>class ControlSection\<close> holds the vector \<^verbatim>\<open>sections\<close> of owned children; its
  subclasses add their fields. \<^verbatim>\<open>Container\<close> (lines 122-136) does not override the
  pure virtual \<^verbatim>\<open>render\<close>, so no object of that class exists: the nodes of a tree
  are \<^verbatim>\<open>Root\<close>, \<^verbatim>\<open>ForSection\<close>, \<^verbatim>\<open>Code\<close> and \<^verbatim>\<open>IfSection\<close>. Every node owns its
  children, so the tree is a datatype: finite, without sharing or cycles.
\<close>

datatype ControlSection =
    Root (sections: "ControlSection list")
  | ForSection (sections: "ControlSection list") (loopStart: int32) (loopEnd: int32)
      (varName: string) (startPos: int32) (endPos: int32)
  | Code (sections: "ControlSection list") (startPos: int32) (endPos: int32)
      (templateCode: string)
  | IfSection (sections: "ControlSection list") (m_isNegation: bool) (m_variableName: string)

subsection \<open>Rendering\<close>

text \<open>
  \<^verbatim>\<open>render( std::map< std::string, Value *> &valueByName )\<close> takes the context by
  reference, changes it in place and may throw. The model returns the outcome (\<open>Inl\<close>
  the error thrown, \<open>Inr\<close> the string returned) together with the context as the call
  leaves it: an exception unwinds the C++ stack and runs no handler (there is no
  \<^verbatim>\<open>try\<close> in the header), so the context stays as it was when the exception was thrown.

  \<^item> \<open>render\<close> is the virtual method, one equation for each class: \<^verbatim>\<open>Root\<close> lines
    199-205, \<^verbatim>\<open>ForSection\<close> lines 145-160, \<^verbatim>\<open>Code\<close> lines 186-192, \<^verbatim>\<open>IfSection\<close>
    lines 221-231.
  \<^item> \<open>render_sections\<close> is the loop \<^verbatim>\<open>for j: result += sections[j]->render( valueByName )\<close>
    from index \<open>j\<close> on, the tail of the vector being its argument; \<open>result\<close> is the
    string accumulated so far.
  \<^item> \<open>for_loop\<close> is the loop \<^verbatim>\<open>for( int i = loopStart; i < loopEnd; i++ )\<close> of
    \<^verbatim>\<open>ForSection::render\<close>, from the current \<open>i\<close> on. The increment cannot overflow:
    it runs only when \<open>i < loopEnd\<close>.

  The fields keep their names as the selectors of the datatype; in the equations they
  are bound to shorter variables (\<open>secs\<close>, \<open>lStart\<close>, \<open>lEnd\<close>, \<open>var\<close>, \<open>sp\<close>,
  \<open>ep\<close>, \<open>code\<close>). \<open>tsf\<close> is the parameter \<open>toString_float\<close>.
\<close>

function render ::
    "(float \<Rightarrow> string) \<Rightarrow> ControlSection \<Rightarrow> ctx \<Rightarrow> (error + string) \<times> ctx"
  and render_sections ::
    "(float \<Rightarrow> string) \<Rightarrow> ControlSection list \<Rightarrow> ctx \<Rightarrow> string \<Rightarrow> (error + string) \<times> ctx"
  and for_loop ::
    "(float \<Rightarrow> string) \<Rightarrow> ControlSection list \<Rightarrow> string \<Rightarrow> int32 \<Rightarrow> int32 \<Rightarrow> ctx \<Rightarrow> string
       \<Rightarrow> (error + string) \<times> ctx"
where
  "render tsf (Root secs) valueByName = render_sections tsf secs valueByName []"
| "render tsf (ForSection secs lStart lEnd var sp ep) valueByName =
     (if valueByName var \<noteq> None
      then (Inl (render_error (''variable '' @ var @ '' already exists in this context'')),
            valueByName)
      else for_loop tsf secs var lStart lEnd valueByName [])"
| "render tsf (Code secs sp ep code) valueByName =
     (doSubstitutions tsf code valueByName, valueByName)"
| "render tsf (IfSection secs isNegation variableName) valueByName =
     (if computeExpression isNegation variableName valueByName
      then render_sections tsf secs valueByName []
      else (Inr [], valueByName))"
| "render_sections tsf [] valueByName result = (Inr result, valueByName)"
| "render_sections tsf (s # ss) valueByName result =
     (case render tsf s valueByName of
        (Inl e, valueByName') \<Rightarrow> (Inl e, valueByName')
      | (Inr str, valueByName') \<Rightarrow> render_sections tsf ss valueByName' (result @ str))"
| "for_loop tsf secs var i lEnd valueByName result =
     (if sint i < sint lEnd
      then (case render_sections tsf secs (valueByName(var \<mapsto> IntValue i)) result of
              (Inl e, valueByName') \<Rightarrow> (Inl e, valueByName')
            | (Inr result', valueByName') \<Rightarrow>
                for_loop tsf secs var (i + 1) lEnd (valueByName'(var := None)) result')
      else (Inr result, valueByName))"
  by pat_completeness auto

lemma sint_succ: "sint (i::int32) < sint (e::int32) \<Longrightarrow> sint (i + 1) = sint i + 1"
proof -
  assume a: "sint i < sint e"
  have "sint e < 2 ^ 31" using sint_lt [of e] by simp
  moreover have "- (2 ^ 31) \<le> sint i" using sint_ge [of i] by simp
  ultimately have "signed_take_bit 31 (sint i + 1) = sint i + 1"
    using a by (intro signed_take_bit_int_eq_self) auto
  then show ?thesis by (simp add: sint_word_ariths)
qed

text \<open>
  The measure of a call: the size of the tree still to be traversed, then the kind of
  the call (\<open>for_loop\<close> calls \<open>render_sections\<close> on the same children, which calls
  \<open>render\<close> on one of them), then the number of iterations \<open>loopEnd - i\<close> left.
\<close>

definition render_measure ::
    "(float \<Rightarrow> string) \<times> ControlSection \<times> ctx +
     (float \<Rightarrow> string) \<times> ControlSection list \<times> ctx \<times> string +
     (float \<Rightarrow> string) \<times> ControlSection list \<times> string \<times> int32 \<times> int32 \<times> ctx \<times> string
     \<Rightarrow> nat \<times> nat \<times> nat" where
  "render_measure x =
     (case x of
        Inl (tsf, s, c) \<Rightarrow> (size s, 0, 0)
      | Inr (Inl (tsf, ss, c, r)) \<Rightarrow> (size_list size ss, 1, 0)
      | Inr (Inr (tsf, ss, v, i, e, c, r)) \<Rightarrow> (size_list size ss, 2, nat (sint e - sint i)))"

lemma render_rel_decreases:
  "render_render_sections_for_loop_rel y x \<Longrightarrow>
   (y, x) \<in> inv_image (less_than <*lex*> less_than <*lex*> less_than) render_measure"
  by (erule render_render_sections_for_loop_rel.cases)
     (auto simp: render_measure_def sint_succ)

lemma wf_render_order:
  "wf (inv_image (less_than <*lex*> less_than <*lex*> less_than) render_measure)"
  by (intro wf_inv_image wf_lex_prod wf_less_than)

lemma render_dom_total: "render_render_sections_for_loop_dom x"
proof (induction x rule: wf_induct_rule [OF wf_render_order])
  case (1 x)
  show ?case
  proof (rule accpI)
    fix y
    assume "render_render_sections_for_loop_rel y x"
    then have "(y, x) \<in> inv_image (less_than <*lex*> less_than <*lex*> less_than) render_measure"
      by (rule render_rel_decreases)
    then show "render_render_sections_for_loop_dom y" by (rule 1)
  qed
qed

termination render
  using render_dom_total by blast

text \<open>
  A call terminates when it lies in the accessible part of the call relation of the
  recursion: every chain of nested calls that starts from it is finite.
\<close>

definition render_terminates :: "(float \<Rightarrow> string) \<Rightarrow> ControlSection \<Rightarrow> ctx \<Rightarrow> bool" where
  "render_terminates tsf s valueByName =
     render_render_sections_for_loop_dom (Inl (tsf, s, valueByName))"

definition doSubstitutions_terminates :: "(float \<Rightarrow> string) \<Rightarrow> string \<Rightarrow> ctx \<Rightarrow> bool" where
  "doSubstitutions_terminates tsf sourceCode valueByName =
     doSubstitutions_dom (tsf, sourceCode, valueByName)"

subsection \<open>The outcome of rendering, in the words of the specification\<close>

text \<open>
  \<open>renders\<close>: the call returns a string (it does not throw); \<open>rendered_text\<close>: the
  string it returns.
\<close>

definition renders :: "(float \<Rightarrow> string) \<Rightarrow> ControlSection \<Rightarrow> ctx \<Rightarrow> bool" where
  "renders tsf s c = (case fst (render tsf s c) of Inl e \<Rightarrow> False | Inr str \<Rightarrow> True)"

definition rendered_text :: "(float \<Rightarrow> string) \<Rightarrow> ControlSection \<Rightarrow> ctx \<Rightarrow> string" where
  "rendered_text tsf s c = (case fst (render tsf s c) of Inl e \<Rightarrow> [] | Inr str \<Rightarrow> str)"

text \<open>
  ``Renders all children in order, concatenates their text'': every child is rendered
  in the same context \<open>c\<close>. The code hands each child the context that the child before
  it has left; \<open>render_sections_children\<close> below shows that this is the same context as
  long as the children return.
\<close>

definition children_render :: "(float \<Rightarrow> string) \<Rightarrow> ControlSection list \<Rightarrow> ctx \<Rightarrow> bool" where
  "children_render tsf secs c = list_all (\<lambda>s. renders tsf s c) secs"

definition children_text :: "(float \<Rightarrow> string) \<Rightarrow> ControlSection list \<Rightarrow> ctx \<Rightarrow> string" where
  "children_text tsf secs c = concat (map (\<lambda>s. rendered_text tsf s c) secs)"

text \<open>``For \<open>i\<close> from \<open>loopStart\<close> to \<open>loopEnd\<close> (exclusive)'', as signed integers.\<close>

definition loop_range :: "int32 \<Rightarrow> int32 \<Rightarrow> int32 list" where
  "loop_range lStart lEnd = map word_of_int [sint lStart .. sint lEnd - 1]"

text \<open>
  ``Binds \<open>varName\<close> to \<open>Int(i)\<close> in \<open>ctx\<close>, renders all children in order,
  concatenates their text'', for every \<open>i\<close> of the range.
\<close>

definition iterations_render ::
    "(float \<Rightarrow> string) \<Rightarrow> ControlSection list \<Rightarrow> string \<Rightarrow> int32 \<Rightarrow> int32 \<Rightarrow> ctx \<Rightarrow> bool" where
  "iterations_render tsf secs var lStart lEnd c =
     list_all (\<lambda>i. children_render tsf secs (c(var \<mapsto> IntValue i))) (loop_range lStart lEnd)"

definition iterations_text ::
    "(float \<Rightarrow> string) \<Rightarrow> ControlSection list \<Rightarrow> string \<Rightarrow> int32 \<Rightarrow> int32 \<Rightarrow> ctx \<Rightarrow> string" where
  "iterations_text tsf secs var lStart lEnd c =
     concat (map (\<lambda>i. children_text tsf secs (c(var \<mapsto> IntValue i))) (loop_range lStart lEnd))"

text \<open>
  ``The fragment references an identifier'': a fragment is literal text with no
  \<^verbatim>\<open>{{\<close>, or literal text (that has no \<^verbatim>\<open>{{\<close> and does not end with \<^verbatim>\<open>{\<close>),
  then \<^verbatim>\<open>{{\<close>, a body (that has no \<^verbatim>\<open>}}\<close> and does not end with \<^verbatim>\<open>}\<close>),
  then \<^verbatim>\<open>}}\<close>, then a fragment. \<open>references sourceCode names\<close>: the identifiers that
  \<open>sourceCode\<close> references, trimmed, in order.
\<close>

inductive references :: "string \<Rightarrow> string list \<Rightarrow> bool" where
  plain: "find_sub ''{{'' lit = None \<Longrightarrow> references lit []"
| pair: "find_sub ''{{'' (lit @ ''{'') = None \<Longrightarrow> find_sub ''}}'' (body @ ''}'') = None \<Longrightarrow>
         references rest names \<Longrightarrow>
         references (lit @ ''{{'' @ body @ ''}}'' @ rest) (trim body # names)"

subsection \<open>Rendering, with the pointers and the heap\<close>

text \<open>
  The context is a \<^verbatim>\<open>std::map< std::string, Value * >\<close>: what it stores are pointers,
  and the values live on the heap. Two runs of the program never see the same pointer
  values: the allocator decides them. This second model keeps them.
  \<^item> A pointer is an address. The heap maps the live addresses to the objects they hold.
  \<^item> The map object is the list of its entries, in the order the container happens to
    hold them: \<^verbatim>\<open>find( k )\<close> is \<open>map_of\<close>, \<^verbatim>\<open>valueByName[k] = p\<close> is
    \<open>AList.update\<close>, \<^verbatim>\<open>erase( k )\<close> is \<open>AList.delete\<close>.
  \<^item> \<^verbatim>\<open>new\<close> returns an address chosen by the allocator, a parameter: it may depend
    on the number of allocations made so far and on the live heap.
\<close>

type_synonym addr = nat

record machine =
  valueByName_map :: "(string \<times> addr) list"
  heap :: "addr \<rightharpoonup> Value"
  allocations :: nat

type_synonym allocator = "nat \<Rightarrow> (addr \<rightharpoonup> Value) \<Rightarrow> addr"

text \<open>
  The context that the code reads through the pointers: what \<^verbatim>\<open>doSubstitutions\<close> and
  \<^verbatim>\<open>computeExpression\<close>, which do \<^verbatim>\<open>find\<close> and then call a method of the value found,
  see of the machine.
\<close>

definition context_of :: "machine \<Rightarrow> ctx" where
  "context_of m =
     (\<lambda>name. case map_of (valueByName_map m) name of None \<Rightarrow> None | Some p \<Rightarrow> heap m p)"

text \<open>
  Line 152, \<^verbatim>\<open>valueByName[varName] = new IntValue( i )\<close>: the allocation, then the
  assignment to the entry.
\<close>

definition new_IntValue :: "allocator \<Rightarrow> int32 \<Rightarrow> machine \<Rightarrow> addr \<times> machine" where
  "new_IntValue alloc i m =
     (let p = alloc (allocations m) (heap m)
      in (p, m\<lparr>heap := (heap m)(p \<mapsto> IntValue i), allocations := Suc (allocations m)\<rparr>))"

definition map_assign :: "string \<Rightarrow> addr \<Rightarrow> machine \<Rightarrow> machine" where
  "map_assign name p m = m\<lparr>valueByName_map := AList.update name p (valueByName_map m)\<rparr>"

text \<open>
  Line 156, \<^verbatim>\<open>delete valueByName[varName]\<close>, frees the object that the entry points to
  (if the entry is missing, \<^verbatim>\<open>operator[]\<close> makes one that holds the null pointer, whose
  \<^verbatim>\<open>delete\<close> does nothing); line 157, \<^verbatim>\<open>valueByName.erase( varName )\<close>, removes the entry.
\<close>

definition delete_entry :: "string \<Rightarrow> machine \<Rightarrow> machine" where
  "delete_entry name m =
     (case map_of (valueByName_map m) name of
        None \<Rightarrow> m
      | Some p \<Rightarrow> m\<lparr>heap := (heap m)(p := None)\<rparr>)"

definition map_erase :: "string \<Rightarrow> machine \<Rightarrow> machine" where
  "map_erase name m = m\<lparr>valueByName_map := AList.delete name (valueByName_map m)\<rparr>"

text \<open>
  The three functions of the rendering again, equation by equation, on the machine:
  the guard of line 148 asks the map object, the loop body allocates, assigns, renders
  the children, frees and erases.
\<close>

function render_h ::
    "allocator \<Rightarrow> (float \<Rightarrow> string) \<Rightarrow> ControlSection \<Rightarrow> machine \<Rightarrow> (error + string) \<times> machine"
  and render_sections_h ::
    "allocator \<Rightarrow> (float \<Rightarrow> string) \<Rightarrow> ControlSection list \<Rightarrow> machine \<Rightarrow> string
       \<Rightarrow> (error + string) \<times> machine"
  and for_loop_h ::
    "allocator \<Rightarrow> (float \<Rightarrow> string) \<Rightarrow> ControlSection list \<Rightarrow> string \<Rightarrow> int32 \<Rightarrow> int32 \<Rightarrow> machine
       \<Rightarrow> string \<Rightarrow> (error + string) \<times> machine"
where
  "render_h alloc tsf (Root secs) m = render_sections_h alloc tsf secs m []"
| "render_h alloc tsf (ForSection secs lStart lEnd var sp ep) m =
     (if map_of (valueByName_map m) var \<noteq> None
      then (Inl (render_error (''variable '' @ var @ '' already exists in this context'')), m)
      else for_loop_h alloc tsf secs var lStart lEnd m [])"
| "render_h alloc tsf (Code secs sp ep code) m = (doSubstitutions tsf code (context_of m), m)"
| "render_h alloc tsf (IfSection secs isNegation variableName) m =
     (if computeExpression isNegation variableName (context_of m)
      then render_sections_h alloc tsf secs m []
      else (Inr [], m))"
| "render_sections_h alloc tsf [] m result = (Inr result, m)"
| "render_sections_h alloc tsf (s # ss) m result =
     (case render_h alloc tsf s m of
        (Inl e, m') \<Rightarrow> (Inl e, m')
      | (Inr str, m') \<Rightarrow> render_sections_h alloc tsf ss m' (result @ str))"
| "for_loop_h alloc tsf secs var i lEnd m result =
     (if sint i < sint lEnd
      then (case new_IntValue alloc i m of
              (p, m1) \<Rightarrow>
                (case render_sections_h alloc tsf secs (map_assign var p m1) result of
                   (Inl e, m') \<Rightarrow> (Inl e, m')
                 | (Inr result', m') \<Rightarrow>
                     for_loop_h alloc tsf secs var (i + 1) lEnd
                       (map_erase var (delete_entry var m')) result'))
      else (Inr result, m))"
  by pat_completeness auto
termination
  by (relation "inv_image (less_than <*lex*> less_than <*lex*> less_than)
     (\<lambda>x. case x of
        Inl (alloc, tsf, s, m) \<Rightarrow> (size s, 0, 0)
      | Inr (Inl (alloc, tsf, ss, m, r)) \<Rightarrow> (size_list size ss, 1, 0)
      | Inr (Inr (alloc, tsf, ss, v, i, e, m, r)) \<Rightarrow> (size_list size ss, 2, nat (sint e - sint i)))")
     (auto simp: sint_succ)

declare for_loop_h.simps [simp del]

text \<open>
  The machine states that the program builds: the heap is finite, no entry dangles, and
  no two entries point to the same object (every entry owns its value and no value is
  shared; line 152 allocates a new object for the entry it makes).
\<close>

definition machine_ok :: "machine \<Rightarrow> bool" where
  "machine_ok m =
     (finite (dom (heap m))
      \<and> (\<forall>name p. map_of (valueByName_map m) name = Some p \<longrightarrow> p \<in> dom (heap m))
      \<and> (\<forall>name name' p. map_of (valueByName_map m) name = Some p
             \<and> map_of (valueByName_map m) name' = Some p \<longrightarrow> name = name'))"

text \<open>What \<^verbatim>\<open>new\<close> guarantees: the address it returns is not live.\<close>

definition fresh_allocator :: "allocator \<Rightarrow> bool" where
  "fresh_allocator alloc = (\<forall>n h. finite (dom h) \<longrightarrow> alloc n h \<notin> dom h)"

text \<open>
  Two machine states that hold the same bindings, at different addresses and in map
  objects of different shape, and two allocators.
\<close>

definition machine_a :: machine where
  "machine_a = \<lparr>valueByName_map = [(''a'', 10), (''b'', 20)],
                 heap = [10 \<mapsto> IntValue 1, 20 \<mapsto> StringValue ''x''],
                 allocations = 2\<rparr>"

definition machine_b :: machine where
  "machine_b = \<lparr>valueByName_map = [(''b'', 7), (''a'', 3)],
                 heap = [3 \<mapsto> IntValue 1, 7 \<mapsto> StringValue ''x''],
                 allocations = 5\<rparr>"

definition alloc_next :: allocator where
  "alloc_next n h = Suc (Max (dom h))"

definition alloc_far :: allocator where
  "alloc_far n h = Max (dom h) + n + 2"

section \<open>Properties\<close>

subsection \<open>The loops, one step at a time\<close>

text \<open>
  The equations of \<open>for_loop\<close> and \<open>doSubstitutions\<close> unfold for ever if they are used
  as rewrite rules; they are applied by hand.
\<close>

declare for_loop.simps [simp del]
declare doSubstitutions.simps [simp del]

lemma for_loop_step:
  "sint i < sint e \<Longrightarrow>
     for_loop tsf ss v i e c r =
       (case render_sections tsf ss (c(v \<mapsto> IntValue i)) r of
          (Inl err, c') \<Rightarrow> (Inl err, c')
        | (Inr r', c') \<Rightarrow> for_loop tsf ss v (i + 1) e (c'(v := None)) r')"
  by (subst for_loop.simps) simp

lemma for_loop_stop: "\<not> sint i < sint e \<Longrightarrow> for_loop tsf ss v i e c r = (Inr r, c)"
  by (subst for_loop.simps) simp

subsection \<open>A call that returns leaves the context as it found it\<close>

lemma render_returns_ctx:
  "render tsf s c = (Inr t, c') \<Longrightarrow> c' = c"
  "render_sections tsf ss c r = (Inr t, c') \<Longrightarrow> c' = c"
  "for_loop tsf ss v i e c r = (Inr t, c') \<Longrightarrow> c' = (if sint i < sint e then c(v := None) else c)"
proof (induction tsf s c and tsf ss c r and tsf ss v i e c r
    arbitrary: t c' and t c' and t c' rule: render_render_sections_for_loop.induct)
  case (1 tsf secs valueByName)
  then show ?case by simp
next
  case (2 tsf secs lStart lEnd var sp ep valueByName)
  then show ?case by (auto split: if_splits)
next
  case (3 tsf secs sp ep code valueByName)
  then show ?case by simp
next
  case (4 tsf secs isNegation variableName valueByName)
  then show ?case by (auto split: if_splits)
next
  case (5 tsf valueByName result)
  then show ?case by simp
next
  case (6 tsf s ss valueByName result)
  from "6.prems" obtain out c1 where
    r1: "render tsf s valueByName = (Inr out, c1)"
    and r2: "render_sections tsf ss c1 (result @ out) = (Inr t, c')"
    by (auto split: prod.splits sum.splits)
  from "6.IH"(1) [OF r1] have "c1 = valueByName" .
  moreover from "6.IH"(2) [OF r1 [symmetric] refl r2] have "c' = c1" .
  ultimately show ?case by simp
next
  case (7 tsf secs var i lEnd valueByName result)
  show ?case
  proof (cases "sint i < sint lEnd")
    case True
    with "7.prems" obtain result' c1 where
      r1: "render_sections tsf secs (valueByName(var \<mapsto> IntValue i)) result = (Inr result', c1)"
      and r2: "for_loop tsf secs var (i + 1) lEnd (c1(var := None)) result' = (Inr t, c')"
      by (auto simp: for_loop_step split: prod.splits sum.splits)
    from "7.IH"(1) [OF True r1] have c1: "c1 = valueByName(var \<mapsto> IntValue i)" .
    from "7.IH"(2) [OF True r1 [symmetric] refl r2]
    have "c' = (if sint (i + 1) < sint lEnd then (c1(var := None))(var := None) else c1(var := None))" .
    then have "c' = c1(var := None)" by (simp split: if_splits)
    then have "c' = valueByName(var := None)" unfolding c1 by simp
    with True show ?thesis by simp
  next
    case False
    with "7.prems" show ?thesis by (simp add: for_loop_stop)
  qed
qed

subsection \<open>The children and the iterations\<close>

lemma renders_iff: "renders tsf s c \<longleftrightarrow> render tsf s c = (Inr (rendered_text tsf s c), c)"
proof (cases "render tsf s c")
  case (Pair x c')
  show ?thesis
  proof (cases x)
    case (Inl e)
    with Pair show ?thesis by (simp add: renders_def)
  next
    case (Inr t)
    with Pair render_returns_ctx(1) [of tsf s c t c'] show ?thesis
      by (simp add: renders_def rendered_text_def)
  qed
qed

lemma not_renders_iff: "\<not> renders tsf s c \<longleftrightarrow> (\<exists>e c'. render tsf s c = (Inl e, c'))"
  by (cases "render tsf s c"; cases "fst (render tsf s c)") (auto simp: renders_def)

lemma render_sections_children:
  "children_render tsf ss c \<Longrightarrow>
     render_sections tsf ss c r = (Inr (r @ children_text tsf ss c), c)"
proof (induction ss arbitrary: r)
  case Nil
  show ?case by (simp add: children_text_def)
next
  case (Cons s ss)
  from Cons.prems have s: "render tsf s c = (Inr (rendered_text tsf s c), c)"
    and ss: "children_render tsf ss c"
    by (simp_all add: children_render_def renders_iff)
  from Cons.IH [OF ss] s show ?case by (simp add: children_text_def)
qed

lemma render_sections_fails:
  "\<not> children_render tsf ss c \<Longrightarrow> \<exists>e c'. render_sections tsf ss c r = (Inl e, c')"
proof (induction ss arbitrary: r)
  case Nil
  then show ?case by (simp add: children_render_def)
next
  case (Cons s ss)
  show ?case
  proof (cases "renders tsf s c")
    case True
    with Cons.prems have "\<not> children_render tsf ss c" by (simp add: children_render_def)
    from Cons.IH [OF this] True show ?thesis by (simp add: renders_iff)
  next
    case False
    then obtain e c' where "render tsf s c = (Inl e, c')" by (auto simp: not_renders_iff)
    then show ?thesis by simp
  qed
qed





subsection \<open>Truthiness of values\<close>

text \<open>
  C6. An \<^verbatim>\<open>IntValue\<close> is true iff its integer is nonzero; a \<^verbatim>\<open>FloatValue\<close> is true
  iff its float is not equal to \<^verbatim>\<open>0.0\<close>, that is iff it is neither the positive nor the
  negative zero (a NaN is true); a \<^verbatim>\<open>StringValue\<close> is true iff its string is not empty.
\<close>

theorem isTrue_characterisation:
  "isTrue (IntValue i) = (sint i \<noteq> 0)
   \<and> isTrue (FloatValue f) = (\<not> float_eq f float_0_0)
   \<and> isTrue (FloatValue f) = (\<not> (exponent f = 0 \<and> fraction f = 0))
   \<and> isTrue (StringValue s) = (length s \<noteq> 0)"
  by (cases f)
     (auto simp: signed_eq_0_iff float_ne_def float_eq_def float_is_nan_def float_is_zero_def
        float_0_0_def)

subsection \<open>The for loop\<close>

text \<open>The definitions that a concrete rendering unfolds.\<close>

lemmas eval_defs = iterations_render_def iterations_text_def children_render_def children_text_def
  renders_def rendered_text_def loop_range_def upto.simps doSubstitutions.simps for_loop.simps
  toString_int_def trim_def is_space_def computeExpression_def



text \<open>
  C5. A \<^verbatim>\<open>ForSection\<close> with \<open>loopStart \<ge> loopEnd\<close> whose loop variable is not bound
  in the context renders to the empty string, whatever its children are, and leaves the
  context unchanged.
\<close>

theorem ForSection_empty_range:
  assumes "ctx var = None" and "sint lEnd \<le> sint lStart"
  shows "render tsf (ForSection secs lStart lEnd var sp ep) ctx = (Inr [], ctx)"
  using assms by (simp add: for_loop_stop)

text \<open>An empty range over a body that would throw in any context.\<close>

theorem ForSection_empty_range_witness:
  "Map.empty ''i'' = None \<and> sint (5 :: int32) \<le> sint (5 :: int32)
   \<and> render (\<lambda>f. []) (ForSection [Code [] 0 11 ''{{missing}}''] 5 5 ''i'' 0 0) Map.empty
       = (Inr [], Map.empty)
   \<and> \<not> renders (\<lambda>f. []) (Code [] 0 11 ''{{missing}}'') [''i'' \<mapsto> IntValue 5]"
  using ForSection_empty_range [of Map.empty "''i''" 5 5 "\<lambda>f. []" "[Code [] 0 11 ''{{missing}}'']" 0 0]
  by (simp add: eval_defs)

text \<open>
  C3. If the loop variable of a \<^verbatim>\<open>ForSection\<close> is already bound in the context,
  \<open>render\<close> throws a \<^verbatim>\<open>render_error\<close>; the binding is neither shadowed nor overwritten:
  the context after the call is the context before it, with the variable bound to the
  same value.
\<close>

theorem ForSection_bound_variable_fails:
  assumes "ctx var = Some v"
  shows "(\<exists>msg. fst (render tsf (ForSection secs lStart lEnd var sp ep) ctx) = Inl (render_error msg))
       \<and> snd (render tsf (ForSection secs lStart lEnd var sp ep) ctx) = ctx
       \<and> snd (render tsf (ForSection secs lStart lEnd var sp ep) ctx) var = Some v"
  using assms by simp

text \<open>
  A loop over a variable that the caller has bound, and the template
  \<^verbatim>\<open>{% for x in range(2) %}{% for x in range(2) %}{% endfor %}{% endfor %}\<close>, whose inner
  loop finds the variable of the outer loop still bound.
\<close>

theorem ForSection_bound_variable_fails_witness:
  "[''i'' \<mapsto> StringValue ''a''] ''i'' = Some (StringValue ''a'')
   \<and> fst (render (\<lambda>f. []) (ForSection [Code [] 0 5 ''{{i}}''] 0 2 ''i'' 0 0) [''i'' \<mapsto> StringValue ''a''])
       = Inl (render_error ''variable i already exists in this context'')
   \<and> snd (render (\<lambda>f. []) (ForSection [Code [] 0 5 ''{{i}}''] 0 2 ''i'' 0 0) [''i'' \<mapsto> StringValue ''a'']) ''i''
       = Some (StringValue ''a'')
   \<and> fst (render (\<lambda>f. []) (Root [ForSection [ForSection [] 0 2 ''x'' 24 60] 0 2 ''x'' 0 72]) Map.empty)
       = Inl (render_error ''variable x already exists in this context'')"
  using ForSection_bound_variable_fails
    [of "[''i'' \<mapsto> StringValue ''a'']" "''i''" "StringValue ''a''" "\<lambda>f. []" "[Code [] 0 5 ''{{i}}'']" 0 2 0 0]
  by (simp add: for_loop.simps)

text \<open>
  C9. If the loop variable of a \<^verbatim>\<open>ForSection\<close> is already bound in the context,
  \<open>render\<close> throws the error of line 149 and leaves the context unchanged, whatever the
  range and the children are (also when \<open>loopStart \<ge> loopEnd\<close>): the outcome is that of
  any other \<^verbatim>\<open>ForSection\<close> over the same variable, so no iteration has run and no
  output is produced.
\<close>

theorem ForSection_collision_atomic:
  assumes "ctx var \<noteq> None"
  shows "render tsf (ForSection secs lStart lEnd var sp ep) ctx =
           (Inl (render_error (''variable '' @ var @ '' already exists in this context'')), ctx)
       \<and> render tsf (ForSection secs lStart lEnd var sp ep) ctx =
           render tsf (ForSection secs' lStart' lEnd' var sp' ep') ctx"
  using assms by simp

text \<open>
  The range from 3 to 0 is empty: with the variable bound the call throws, with the same
  range and the variable unbound it returns the empty string.
\<close>

theorem ForSection_collision_atomic_witness:
  "[''x'' \<mapsto> IntValue 7] ''x'' \<noteq> None \<and> sint (0 :: int32) \<le> sint (3 :: int32)
   \<and> render (\<lambda>f. []) (ForSection [Code [] 0 5 ''{{x}}''] 3 0 ''x'' 0 0) [''x'' \<mapsto> IntValue 7]
       = (Inl (render_error ''variable x already exists in this context''), [''x'' \<mapsto> IntValue 7])
   \<and> render (\<lambda>f. []) (ForSection [] 3 0 ''x'' 0 0) Map.empty = (Inr [], Map.empty)"
  using ForSection_collision_atomic
    [of "[''x'' \<mapsto> IntValue 7]" "''x''" "\<lambda>f. []" "[Code [] 0 5 ''{{x}}'']" 3 0 0 0]
  by (simp add: eval_defs)




subsection \<open>The conditional\<close>

text \<open>
  C4. The condition of an \<^verbatim>\<open>IfSection\<close> is: the variable name is a key of the context
  and its value is true, inverted when the negation flag is set. When the condition holds,
  \<open>render\<close> returns the in-order concatenation of the children's texts (and throws if a
  child throws); otherwise it returns the empty string. A variable that is absent from the
  context counts as false: a plain \<^verbatim>\<open>if\<close> renders to the empty string, an
  \<^verbatim>\<open>if not\<close> renders its children, and neither is an error. The context is returned
  unchanged.
\<close>

theorem IfSection_render_condition:
  "computeExpression isNegation name ctx = ((\<exists>v. ctx name = Some v \<and> isTrue v) \<noteq> isNegation)
   \<and> (computeExpression isNegation name ctx \<and> children_render tsf secs ctx \<longrightarrow>
         render tsf (IfSection secs isNegation name) ctx = (Inr (children_text tsf secs ctx), ctx))
   \<and> (computeExpression isNegation name ctx \<and> \<not> children_render tsf secs ctx \<longrightarrow>
         (\<exists>e ctx'. render tsf (IfSection secs isNegation name) ctx = (Inl e, ctx')))
   \<and> (\<not> computeExpression isNegation name ctx \<longrightarrow>
         render tsf (IfSection secs isNegation name) ctx = (Inr [], ctx))
   \<and> (ctx name = None \<longrightarrow>
         render tsf (IfSection secs False name) ctx = (Inr [], ctx)
         \<and> render tsf (IfSection secs True name) ctx = render tsf (Root secs) ctx)"
proof (intro conjI impI)
  show "computeExpression isNegation name ctx = ((\<exists>v. ctx name = Some v \<and> isTrue v) \<noteq> isNegation)"
    by (auto simp: computeExpression_def split: option.splits)
next
  assume "computeExpression isNegation name ctx \<and> children_render tsf secs ctx"
  then show "render tsf (IfSection secs isNegation name) ctx = (Inr (children_text tsf secs ctx), ctx)"
    using render_sections_children [of tsf secs ctx "[]"] by simp
next
  assume "computeExpression isNegation name ctx \<and> \<not> children_render tsf secs ctx"
  then show "\<exists>e ctx'. render tsf (IfSection secs isNegation name) ctx = (Inl e, ctx')"
    using render_sections_fails [of tsf secs ctx "[]"] by simp
next
  assume "\<not> computeExpression isNegation name ctx"
  then show "render tsf (IfSection secs isNegation name) ctx = (Inr [], ctx)" by simp
next
  assume "ctx name = None"
  then show "render tsf (IfSection secs False name) ctx = (Inr [], ctx)"
    by (simp add: computeExpression_def)
next
  assume "ctx name = None"
  then show "render tsf (IfSection secs True name) ctx = render tsf (Root secs) ctx"
    by (simp add: computeExpression_def)
qed

text \<open>
  The template \<^verbatim>\<open>{% if not flag %}empty{% endif %}\<close> with \<^verbatim>\<open>flag\<close> unbound, bound to
  0 and bound to 1, and \<^verbatim>\<open>{% if flag %}empty{% endif %}\<close> with \<^verbatim>\<open>flag\<close> unbound.
\<close>

theorem IfSection_render_condition_witness:
  "computeExpression True ''flag'' Map.empty
   \<and> children_render (\<lambda>f. []) [Code [] 17 22 ''empty''] Map.empty
   \<and> render (\<lambda>f. []) (IfSection [Code [] 17 22 ''empty''] True ''flag'') Map.empty
       = (Inr ''empty'', Map.empty)
   \<and> render (\<lambda>f. []) (IfSection [Code [] 17 22 ''empty''] True ''flag'') [''flag'' \<mapsto> IntValue 0]
       = (Inr ''empty'', [''flag'' \<mapsto> IntValue 0])
   \<and> \<not> computeExpression True ''flag'' [''flag'' \<mapsto> IntValue 1]
   \<and> render (\<lambda>f. []) (IfSection [Code [] 17 22 ''empty''] True ''flag'') [''flag'' \<mapsto> IntValue 1]
       = (Inr [], [''flag'' \<mapsto> IntValue 1])
   \<and> render (\<lambda>f. []) (IfSection [Code [] 13 18 ''empty''] False ''flag'') Map.empty
       = (Inr [], Map.empty)"
  using IfSection_render_condition
    [of True "''flag''" Map.empty "\<lambda>f. []" "[Code [] 17 22 ''empty'']"]
    IfSection_render_condition
    [of True "''flag''" "[''flag'' \<mapsto> IntValue 0]" "\<lambda>f. []" "[Code [] 17 22 ''empty'']"]
    IfSection_render_condition
    [of True "''flag''" "[''flag'' \<mapsto> IntValue 1]" "\<lambda>f. []" "[Code [] 17 22 ''empty'']"]
    IfSection_render_condition
    [of False "''flag''" Map.empty "\<lambda>f. []" "[Code [] 13 18 ''empty'']"]
  by (simp add: eval_defs)

subsection \<open>Determinism and termination\<close>

subsubsection \<open>The machine refines the rendering on contexts\<close>

lemma guard_context_of:
  "machine_ok m \<Longrightarrow> (map_of (valueByName_map m) name \<noteq> None) = (context_of m name \<noteq> None)"
  by (auto simp: machine_ok_def context_of_def split: option.splits)

lemma bind_context_of:
  assumes "machine_ok m" and "fresh_allocator alloc" and "new_IntValue alloc i m = (p, m1)"
  shows "context_of (map_assign var p m1) = (context_of m)(var \<mapsto> IntValue i)"
    and "machine_ok (map_assign var p m1)"
proof -
  from assms have p: "p \<notin> dom (heap m)" and p_def: "p = alloc (allocations m) (heap m)"
    and m1: "m1 = m\<lparr>heap := (heap m)(p \<mapsto> IntValue i), allocations := Suc (allocations m)\<rparr>"
    by (auto simp: new_IntValue_def Let_def machine_ok_def fresh_allocator_def)
  have live: "map_of (valueByName_map m) name = Some q \<Longrightarrow> q \<noteq> p" for name q
    using assms(1) p by (auto simp: machine_ok_def)
  show "context_of (map_assign var p m1) = (context_of m)(var \<mapsto> IntValue i)"
    by (rule ext) (auto simp: context_of_def map_assign_def m1 update_conv' dest: live
        split: option.splits)
  show "machine_ok (map_assign var p m1)"
    using assms(1) p
    by (auto simp: machine_ok_def map_assign_def m1 update_conv' split: if_splits)
qed

lemma unbind_context_of:
  assumes "machine_ok m"
  shows "context_of (map_erase var (delete_entry var m)) = (context_of m)(var := None)"
    and "machine_ok (map_erase var (delete_entry var m))"
proof -
  show "context_of (map_erase var (delete_entry var m)) = (context_of m)(var := None)"
    using assms
    by (intro ext)
       (auto simp: context_of_def map_erase_def delete_entry_def delete_conv' machine_ok_def
          split: option.splits)
  show "machine_ok (map_erase var (delete_entry var m))"
    using assms
    by (auto simp: map_erase_def delete_entry_def delete_conv' machine_ok_def
          split: option.splits if_splits)
qed

lemma render_h_simulates:
  "machine_ok m \<Longrightarrow> fresh_allocator alloc \<Longrightarrow> render_h alloc tsf s m = (r, m') \<Longrightarrow>
     render tsf s (context_of m) = (r, context_of m') \<and> machine_ok m'"
  "machine_ok m \<Longrightarrow> fresh_allocator alloc \<Longrightarrow> render_sections_h alloc tsf ss m res = (r, m') \<Longrightarrow>
     render_sections tsf ss (context_of m) res = (r, context_of m') \<and> machine_ok m'"
  "machine_ok m \<Longrightarrow> fresh_allocator alloc \<Longrightarrow> for_loop_h alloc tsf ss v i e m res = (r, m') \<Longrightarrow>
     for_loop tsf ss v i e (context_of m) res = (r, context_of m') \<and> machine_ok m'"
proof (induction alloc tsf s m and alloc tsf ss m res and alloc tsf ss v i e m res
    arbitrary: r m' and r m' and r m' rule: render_h_render_sections_h_for_loop_h.induct)
  case (1 alloc tsf secs m)
  then show ?case by simp
next
  case (2 alloc tsf secs lStart lEnd var sp ep m)
  show ?case
  proof (cases "map_of (valueByName_map m) var \<noteq> None")
    case True
    with "2.prems" guard_context_of [of m var] show ?thesis by auto
  next
    case False
    with "2.prems" have "for_loop_h alloc tsf secs var lStart lEnd m [] = (r, m')" by simp
    from "2.IH" [OF False "2.prems"(1,2) this] False guard_context_of [OF "2.prems"(1), of var]
    show ?thesis by simp
  qed
next
  case (3 alloc tsf secs sp ep code m)
  then show ?case by auto
next
  case (4 alloc tsf secs isNegation variableName m)
  show ?case
  proof (cases "computeExpression isNegation variableName (context_of m)")
    case True
    with "4.prems" have "render_sections_h alloc tsf secs m [] = (r, m')" by simp
    from "4.IH" [OF True "4.prems"(1,2) this] True show ?thesis by simp
  next
    case False
    with "4.prems" show ?thesis by auto
  qed
next
  case (5 alloc tsf m result)
  then show ?case by auto
next
  case (6 alloc tsf s ss m result)
  obtain r1 m1 where s: "render_h alloc tsf s m = (r1, m1)" by (cases "render_h alloc tsf s m")
  from "6.IH"(1) [OF "6.prems"(1,2) s]
  have sim: "render tsf s (context_of m) = (r1, context_of m1)" and ok: "machine_ok m1"
    by simp_all
  show ?case
  proof (cases r1)
    case (Inl err)
    with s sim ok "6.prems"(3) show ?thesis by auto
  next
    case (Inr str)
    with s "6.prems"(3) have "render_sections_h alloc tsf ss m1 (result @ str) = (r, m')" by simp
    from "6.IH"(2) [OF s [symmetric] Inr ok "6.prems"(2) this] sim Inr
    show ?thesis by simp
  qed
next
  case (7 alloc tsf secs var i lEnd m result)
  show ?case
  proof (cases "sint i < sint lEnd")
    case False
    with "7.prems" show ?thesis by (auto simp: for_loop_h.simps for_loop_stop)
  next
    case True
    obtain p m1 where new: "new_IntValue alloc i m = (p, m1)" by (cases "new_IntValue alloc i m")
    note b = bind_context_of [OF "7.prems"(1,2) new, of var]
    obtain r1 m2 where body:
      "render_sections_h alloc tsf secs (map_assign var p m1) result = (r1, m2)"
      by (cases "render_sections_h alloc tsf secs (map_assign var p m1) result")
    note step = "7.IH"(1) [OF True new [symmetric] b(2) "7.prems"(2) body]
    from step [unfolded b(1)]
    have sim: "render_sections tsf secs ((context_of m)(var \<mapsto> IntValue i)) result
                 = (r1, context_of m2)"
      and ok: "machine_ok m2"
      by blast+
    show ?thesis
    proof (cases r1)
      case (Inl err)
      with True new body "7.prems"(3) have "r = Inl err" "m' = m2"
        by (simp_all add: for_loop_h.simps)
      with sim ok Inl True show ?thesis by (simp add: for_loop_step)
    next
      case (Inr result')
      note u = unbind_context_of [OF ok, of var]
      from True new body Inr "7.prems"(3)
      have "for_loop_h alloc tsf secs var (i + 1) lEnd (map_erase var (delete_entry var m2)) result'
              = (r, m')"
        by (simp add: for_loop_h.simps)
      note rest = "7.IH"(2) [OF True new [symmetric] body [symmetric] Inr u(2) "7.prems"(2) this]
      from rest [unfolded u(1)]
      have "for_loop tsf secs var (i + 1) lEnd ((context_of m2)(var := None)) result'
              = (r, context_of m')" and "machine_ok m'"
        by blast+
      with sim Inr True show ?thesis by (simp add: for_loop_step)
    qed
  qed
qed

lemma alloc_next_fresh: "fresh_allocator alloc_next"
  unfolding fresh_allocator_def alloc_next_def
proof (intro allI impI)
  fix n :: nat and h :: "addr \<rightharpoonup> Value"
  assume fin: "finite (dom h)"
  show "Suc (Max (dom h)) \<notin> dom h"
  proof
    assume "Suc (Max (dom h)) \<in> dom h"
    from Max_ge [OF fin this] show False by simp
  qed
qed

lemma alloc_far_fresh: "fresh_allocator alloc_far"
  unfolding fresh_allocator_def alloc_far_def
proof (intro allI impI)
  fix n :: nat and h :: "addr \<rightharpoonup> Value"
  assume fin: "finite (dom h)"
  show "Max (dom h) + n + 2 \<notin> dom h"
  proof
    assume "Max (dom h) + n + 2 \<in> dom h"
    from Max_ge [OF fin this] show False by simp
  qed
qed

text \<open>
  C10. Rendering is deterministic. Take two runs of \<open>render\<close> on the same tree, each on
  its own machine state and with its own allocator, so that pointer values, map objects
  and heaps differ, but the two contexts are equal as maps from names to values. Then the
  two runs have the same outcome (the same string, or the same error), and they leave
  contexts that are equal as maps from names to values; when they return, each context is,
  as such a map, what it was before the run. \<^verbatim>\<open>toString\<close>, missing from the sources,
  is taken to be a function of its argument.
\<close>

theorem render_runs_deterministic:
  assumes "machine_ok m1" and "machine_ok m2"
    and "fresh_allocator alloc1" and "fresh_allocator alloc2"
    and "\<forall>name. context_of m1 name = context_of m2 name"
  shows "fst (render_h alloc1 tsf s m1) = fst (render_h alloc2 tsf s m2)
       \<and> (\<forall>name. context_of (snd (render_h alloc1 tsf s m1)) name
                 = context_of (snd (render_h alloc2 tsf s m2)) name)
       \<and> (\<forall>out. fst (render_h alloc1 tsf s m1) = Inr out \<longrightarrow>
             (\<forall>name. context_of (snd (render_h alloc1 tsf s m1)) name = context_of m1 name)
             \<and> (\<forall>name. context_of (snd (render_h alloc2 tsf s m2)) name = context_of m2 name))"
proof -
  from assms(5) have eq: "context_of m1 = context_of m2" by (simp add: fun_eq_iff)
  obtain r1 n1 where run1: "render_h alloc1 tsf s m1 = (r1, n1)"
    by (cases "render_h alloc1 tsf s m1")
  obtain r2 n2 where run2: "render_h alloc2 tsf s m2 = (r2, n2)"
    by (cases "render_h alloc2 tsf s m2")
  from render_h_simulates(1) [OF assms(1,3) run1]
  have sim1: "render tsf s (context_of m1) = (r1, context_of n1)" by simp
  from render_h_simulates(1) [OF assms(2,4) run2]
  have sim2: "render tsf s (context_of m2) = (r2, context_of n2)" by simp
  from sim1 sim2 eq have same: "r1 = r2" "context_of n1 = context_of n2" by simp_all
  have restored: "context_of n1 = context_of m1" if "r1 = Inr out" for out
    using that sim1 render_returns_ctx(1) [of tsf s "context_of m1" out "context_of n1"] by simp
  from same restored eq run1 run2 show ?thesis by simp
qed

text \<open>
  The template \<^verbatim>\<open>{% for i in range(2) %}{{a}}{{ b }}{{i}},{% endfor %}\<close> on the two
  machine states: \<^verbatim>\<open>a\<close> is held at address 10 in one and at address 3 in the other,
  and the first loop variable is allocated at address 21 in one and at address 14 in the
  other.
\<close>

lemmas heap_eval_defs = machine_a_def machine_b_def alloc_next_def alloc_far_def
  for_loop_h.simps new_IntValue_def map_assign_def map_erase_def delete_entry_def context_of_def
  doSubstitutions.simps toString_int_def trim_def is_space_def Let_def

theorem render_runs_deterministic_witness:
  "machine_ok machine_a \<and> machine_ok machine_b
   \<and> fresh_allocator alloc_next \<and> fresh_allocator alloc_far
   \<and> (\<forall>name. context_of machine_a name = context_of machine_b name)
   \<and> map_of (valueByName_map machine_a) ''a'' = Some 10
   \<and> map_of (valueByName_map machine_b) ''a'' = Some 3
   \<and> alloc_next (allocations machine_a) (heap machine_a) = 21
   \<and> alloc_far (allocations machine_b) (heap machine_b) = 14
   \<and> fst (render_h alloc_next (\<lambda>f. [])
         (Root [ForSection [Code [] 23 38 ''{{a}}{{ b }}{{i}},''] 0 2 ''i'' 0 50]) machine_a)
       = Inr ''1x0,1x1,''
   \<and> fst (render_h alloc_far (\<lambda>f. [])
         (Root [ForSection [Code [] 23 38 ''{{a}}{{ b }}{{i}},''] 0 2 ''i'' 0 50]) machine_b)
       = Inr ''1x0,1x1,''"
proof -
  have a: "machine_ok machine_a" by (simp add: machine_ok_def machine_a_def)
  have b: "machine_ok machine_b" by (simp add: machine_ok_def machine_b_def)
  have c: "\<forall>name. context_of machine_a name = context_of machine_b name"
    by (simp add: context_of_def machine_a_def machine_b_def)
  have run: "fst (render_h alloc_next (\<lambda>f. [])
         (Root [ForSection [Code [] 23 38 ''{{a}}{{ b }}{{i}},''] 0 2 ''i'' 0 50]) machine_a)
       = Inr ''1x0,1x1,''"
    by (simp add: heap_eval_defs)
  from render_runs_deterministic [OF a b alloc_next_fresh alloc_far_fresh c, of "\<lambda>f. []"
      "Root [ForSection [Code [] 23 38 ''{{a}}{{ b }}{{i}},''] 0 2 ''i'' 0 50]"]
  have "fst (render_h alloc_far (\<lambda>f. [])
         (Root [ForSection [Code [] 23 38 ''{{a}}{{ b }}{{i}},''] 0 2 ''i'' 0 50]) machine_b)
       = Inr ''1x0,1x1,''"
    unfolding run by (elim conjE) (rule sym)
  with a b c run alloc_next_fresh alloc_far_fresh show ?thesis
    by (simp add: machine_a_def machine_b_def alloc_next_def alloc_far_def)
qed

text \<open>
  C8. Rendering always terminates: every call of \<open>render\<close>, on every tree and every
  context, lies in the accessible part of the call relation, and so does every call of
  \<open>doSubstitutions\<close>, which \<^verbatim>\<open>Code::render\<close> calls. The traversal is bounded by the size
  of the tree and by the loop ranges: every nested call has a smaller measure (the size of
  the subtree, then the kind of the call, then the number of iterations left).
\<close>

theorem render_always_terminates:
  "render_terminates tsf s ctx
   \<and> doSubstitutions_terminates tsf code ctx
   \<and> (render_render_sections_for_loop_rel y x \<longrightarrow>
        (render_measure y, render_measure x) \<in> less_than <*lex*> less_than <*lex*> less_than)"
  using render_dom_total doSubstitutions_dom_total render_rel_decreases [of y x]
  by (simp add: render_terminates_def doSubstitutions_terminates_def)

text \<open>
  The first iteration of a loop from 0 to 2 calls \<open>render_sections\<close> on the children: the
  measure goes from \<open>(2, 2, 2)\<close> to \<open>(2, 1, 0)\<close>.
\<close>

theorem render_always_terminates_witness:
  "render_render_sections_for_loop_rel
     (Inr (Inl (\<lambda>f. [], [Code [] 0 1 ''a''], [''i'' \<mapsto> IntValue 0], [])))
     (Inr (Inr (\<lambda>f. [], [Code [] 0 1 ''a''], ''i'', 0, 2, Map.empty, [])))
   \<and> render_measure (Inr (Inl (\<lambda>f. [], [Code [] 0 1 ''a''], [''i'' \<mapsto> IntValue 0], []))) = (2, 1, 0)
   \<and> render_measure (Inr (Inr (\<lambda>f. [], [Code [] 0 1 ''a''], ''i'', 0, 2, Map.empty, []))) = (2, 2, 2)
   \<and> render_terminates (\<lambda>f. []) (ForSection [Code [] 0 1 ''a''] 0 2 ''i'' 0 0) Map.empty"
proof -
  have r: "render_render_sections_for_loop_rel
     (Inr (Inl (\<lambda>f. [], [Code [] 0 1 ''a''], [''i'' \<mapsto> IntValue 0], [])))
     (Inr (Inr (\<lambda>f. [], [Code [] 0 1 ''a''], ''i'', 0, 2, Map.empty, [])))"
    using render_render_sections_for_loop_rel.intros(6)
      [of 0 2 "\<lambda>f. []" "[Code [] 0 1 ''a'']" Map.empty "''i''" "[]"]
    by simp
  from r render_always_terminates
    [of "\<lambda>f. []" "ForSection [Code [] 0 1 ''a''] 0 2 ''i'' 0 0" Map.empty "[]"
        "Inr (Inl (\<lambda>f. [], [Code [] 0 1 ''a''], [''i'' \<mapsto> IntValue 0], []))"
        "Inr (Inr (\<lambda>f. [], [Code [] 0 1 ''a''], ''i'', 0, 2, Map.empty, []))"]
  show ?thesis by (simp add: render_measure_def)
qed

subsection \<open>The substitution engine\<close>

lemma find_sub_Some_prefix: "find_sub pat s = Some p \<Longrightarrow> prefix pat (drop p s)"
proof (induction s arbitrary: p)
  case Nil
  then show ?case by (simp split: if_splits)
next
  case (Cons c cs)
  then show ?case by (cases "prefix pat (c # cs)") auto
qed

lemma find_sub_occurs: "prefix pat (drop k s) \<Longrightarrow> \<exists>p\<le>k. find_sub pat s = Some p"
proof (induction s arbitrary: k)
  case Nil
  then show ?case by simp
next
  case (Cons c cs)
  show ?case
  proof (cases "prefix pat (c # cs)")
    case True
    then show ?thesis by simp
  next
    case False
    with Cons.prems obtain k' where k: "k = Suc k'" by (cases k) auto
    with Cons.prems have "prefix pat (drop k' cs)" by simp
    from Cons.IH [OF this] obtain p where "p \<le> k'" "find_sub pat cs = Some p" by blast
    with False k show ?thesis by simp
  qed
qed

lemma find_sub_None: "find_sub pat s = None \<Longrightarrow> \<not> prefix pat (drop k s)"
  using find_sub_occurs [of pat k s] by auto

lemma unterminated_fails:
  "sourceCode = pre @ ''{{'' @ rest \<Longrightarrow> find_sub ''}}'' rest = None \<Longrightarrow>
     isl (doSubstitutions tsf sourceCode ctx)"
proof (induction tsf sourceCode ctx arbitrary: pre rule: doSubstitutions.induct)
  case (1 tsf sourceCode ctx)
  have "prefix ''{{'' (drop (length pre) sourceCode)" using "1.prems"(1) by simp
  from find_sub_occurs [OF this] obtain p where
    p: "p \<le> length pre" "find_sub ''{{'' sourceCode = Some p" by blast
  show ?case
  proof (cases "find_sub ''}}'' (drop (p + 2) sourceCode)")
    case None
    with p show ?thesis by (subst doSubstitutions.simps) simp
  next
    case (Some q)
    from find_sub_Some_prefix [OF Some]
    have close: "prefix ''}}'' (drop (p + 2 + q) sourceCode)" by (simp add: add.commute)
    have le: "p + 2 + q + 2 \<le> length pre"
    proof (rule ccontr)
      assume "\<not> p + 2 + q + 2 \<le> length pre"
      then consider "p + 2 + q \<ge> length pre + 2" | "p + 2 + q = length pre + 1"
        | "p + 2 + q = length pre" | "Suc (p + 2 + q) = length pre"
        by linarith
      then show False
      proof cases
        case 1
        then obtain d where d: "p + 2 + q = length pre + Suc (Suc d)"
          using le_Suc_ex [of "length pre + 2" "p + 2 + q"] by auto
        have "drop (p + 2 + q) sourceCode = drop d rest"
          unfolding d "1.prems"(1) by simp
        with close have "prefix ''}}'' (drop d rest)" by simp
        with find_sub_None [OF "1.prems"(2)] show False by blast
      next
        case 2
        with close "1.prems"(1) show False by simp
      next
        case 3
        with close "1.prems"(1) show False by simp
      next
        case 4
        then have "length (drop (p + 2 + q) pre) = Suc 0" by simp
        then obtain c where "drop (p + 2 + q) pre = [c]"
          by (metis length_0_conv length_Suc_conv)
        with close "1.prems"(1) 4 show False by simp
      qed
    qed
    show ?thesis
    proof (cases "ctx (trim (take q (drop (p + 2) sourceCode)))")
      case None
      with p Some show ?thesis by (subst doSubstitutions.simps) simp
    next
      case (Some v)
      have "drop (q + 2) (drop (p + 2) sourceCode) = drop (p + 2 + q + 2) pre @ ''{{'' @ rest"
        using le "1.prems"(1) by (simp add: add.commute add.left_commute)
      from "1.IH" [OF p(2) \<open>find_sub ''}}'' (drop (p + 2) sourceCode) = Some q\<close> Some this "1.prems"(2)]
      have "isl (doSubstitutions tsf (drop (q + 2) (drop (p + 2) sourceCode)) ctx)" .
      with p \<open>find_sub ''}}'' (drop (p + 2) sourceCode) = Some q\<close> Some
      show ?thesis by (subst doSubstitutions.simps) (auto split: sum.splits)
    qed
  qed
qed

lemma find_sub_pair_first:
  "find_sub [a, a] (t @ [a]) = None \<Longrightarrow> find_sub [a, a] (t @ a # a # u) = Some (length t)"
proof (induction t)
  case Nil
  show ?case by simp
next
  case (Cons c t)
  from Cons.prems have no: "\<not> prefix [a, a] (c # t @ [a])"
    and rest: "find_sub [a, a] (t @ [a]) = None"
    by (auto split: if_splits)
  from no have "\<not> prefix [a, a] (c # t @ a # a # u)" by (cases t) auto
  with Cons.IH [OF rest] show ?case by simp
qed

lemma references_unbound_fails:
  "references sourceCode names \<Longrightarrow> name \<in> set names \<Longrightarrow> ctx name = None \<Longrightarrow>
     isl (doSubstitutions tsf sourceCode ctx)"
proof (induction rule: references.induct)
  case (plain lit)
  then show ?case by simp
next
  case (pair lit body rest names)
  have p: "find_sub ''{{'' (lit @ ''{{'' @ body @ ''}}'' @ rest) = Some (length lit)"
    using find_sub_pair_first [OF pair.hyps(1)] by simp
  have q: "find_sub ''}}'' (body @ ''}}'' @ rest) = Some (length body)"
    using find_sub_pair_first [OF pair.hyps(2)] by simp
  show ?case
  proof (cases "ctx (trim body)")
    case None
    with p q show ?thesis by (subst doSubstitutions.simps) simp
  next
    case (Some v)
    with pair.prems have "name \<in> set names" by auto
    from pair.IH [OF this pair.prems(2)] p q Some
    show ?thesis by (subst doSubstitutions.simps) (auto split: sum.splits)
  qed
qed

lemma references_bound_renders:
  "references sourceCode names \<Longrightarrow> \<forall>name\<in>set names. ctx name \<noteq> None \<Longrightarrow>
     \<not> isl (doSubstitutions tsf sourceCode ctx)"
proof (induction rule: references.induct)
  case (plain lit)
  then show ?case by (subst doSubstitutions.simps) simp
next
  case (pair lit body rest names)
  have p: "find_sub ''{{'' (lit @ ''{{'' @ body @ ''}}'' @ rest) = Some (length lit)"
    using find_sub_pair_first [OF pair.hyps(1)] by simp
  have q: "find_sub ''}}'' (body @ ''}}'' @ rest) = Some (length body)"
    using find_sub_pair_first [OF pair.hyps(2)] by simp
  from pair.prems obtain v where v: "ctx (trim body) = Some v" by auto
  from pair.prems have "\<forall>name\<in>set names. ctx name \<noteq> None" by simp
  from pair.IH [OF this] p q v
  show ?case by (subst doSubstitutions.simps) (auto split: sum.splits)
qed

text \<open>
  C7. \<open>doSubstitutions\<close> fails with a \<^verbatim>\<open>render_error\<close> when the fragment references an
  identifier that the context does not bind, and when it contains a \<^verbatim>\<open>{{\<close> after
  which no \<^verbatim>\<open>}}\<close> occurs. \<^verbatim>\<open>Code::render\<close> returns what \<open>doSubstitutions\<close> returns
  on its text and leaves the context alone; in particular rendering \<^verbatim>\<open>{{missing}}\<close>
  with no binding fails with a \<^verbatim>\<open>render_error\<close>.
\<close>

theorem doSubstitutions_fails:
  "(references sourceCode names \<and> name \<in> set names \<and> ctx name = None \<longrightarrow>
      (\<exists>msg. doSubstitutions tsf sourceCode ctx = Inl (render_error msg)))
   \<and> (sourceCode = pre @ ''{{'' @ rest \<and> find_sub ''}}'' rest = None \<longrightarrow>
      (\<exists>msg. doSubstitutions tsf sourceCode ctx = Inl (render_error msg)))
   \<and> render tsf (Code secs sp ep sourceCode) ctx = (doSubstitutions tsf sourceCode ctx, ctx)
   \<and> (\<exists>msg. fst (render tsf (Code secs sp ep ''{{missing}}'') Map.empty) = Inl (render_error msg))"
proof (intro conjI impI)
  have err: "\<exists>msg. r = Inl (render_error msg)" if "isl r" for r :: "error + string"
    using that by (cases r) (auto intro: error.exhaust)
  {
    assume "references sourceCode names \<and> name \<in> set names \<and> ctx name = None"
    then have "isl (doSubstitutions tsf sourceCode ctx)"
      using references_unbound_fails by blast
    then show "\<exists>msg. doSubstitutions tsf sourceCode ctx = Inl (render_error msg)" by (rule err)
  }
  {
    assume "sourceCode = pre @ ''{{'' @ rest \<and> find_sub ''}}'' rest = None"
    then have "isl (doSubstitutions tsf sourceCode ctx)"
      using unterminated_fails by blast
    then show "\<exists>msg. doSubstitutions tsf sourceCode ctx = Inl (render_error msg)" by (rule err)
  }
  show "render tsf (Code secs sp ep sourceCode) ctx = (doSubstitutions tsf sourceCode ctx, ctx)"
    by simp
  show "\<exists>msg. fst (render tsf (Code secs sp ep ''{{missing}}'') Map.empty) = Inl (render_error msg)"
    by (simp add: doSubstitutions.simps trim_def is_space_def)
qed

text \<open>
  A fragment whose second identifier is unbound, a fragment with an unmatched \<^verbatim>\<open>{{\<close>,
  and, for contrast, \<^verbatim>\<open>Hello {{name}}!\<close> with \<^verbatim>\<open>name\<close> bound to \<^verbatim>\<open>World\<close>.
\<close>

theorem doSubstitutions_fails_witness:
  "references ''Hello {{name}}, {{ missing }}!'' [''name'', ''missing'']
   \<and> ''missing'' \<in> set [''name'', ''missing'']
   \<and> [''name'' \<mapsto> StringValue ''World''] ''missing'' = None
   \<and> doSubstitutions (\<lambda>f. []) ''Hello {{name}}, {{ missing }}!'' [''name'' \<mapsto> StringValue ''World'']
       = Inl (render_error ''name missing not defined'')
   \<and> ''ab{{c'' = ''ab'' @ ''{{'' @ ''c'' \<and> find_sub ''}}'' ''c'' = None
   \<and> doSubstitutions (\<lambda>f. []) ''ab{{c'' Map.empty = Inl (render_error ''unterminated {{'')
   \<and> doSubstitutions (\<lambda>f. []) ''Hello {{name}}!'' [''name'' \<mapsto> StringValue ''World'']
       = Inr ''Hello World!''"
proof -
  have r0: "references ''!'' []" by (rule references.plain) simp
  have r1: "references ('', '' @ ''{{'' @ '' missing '' @ ''}}'' @ ''!'') [trim '' missing '']"
    by (rule references.pair [OF _ _ r0]) simp_all
  have r2: "references (''Hello '' @ ''{{'' @ ''name'' @ ''}}'' @ '', '' @ ''{{'' @ '' missing '' @ ''}}'' @ ''!'')
              [trim ''name'', trim '' missing '']"
    by (rule references.pair [OF _ _ r1]) simp_all
  then have r: "references ''Hello {{name}}, {{ missing }}!'' [''name'', ''missing'']"
    by (simp add: trim_def is_space_def)
  from r doSubstitutions_fails
    [of "''Hello {{name}}, {{ missing }}!''" "[''name'', ''missing'']" "''missing''"
        "[''name'' \<mapsto> StringValue ''World'']" "\<lambda>f. []" "''ab''" "''c''" "[]" 0 0]
    doSubstitutions_fails
    [of "''ab{{c''" "[]" "''x''" Map.empty "\<lambda>f. []" "''ab''" "''c''" "[]" 0 0]
  show ?thesis by (simp add: doSubstitutions.simps trim_def is_space_def)
qed

end
